theory Spec2Isabelle
  imports
    Main
    "HOL-Library.Char_ord"
    "HOL-Library.List_Lexorder"
    "HOL-Library.Multiset"
begin

section \<open>Layers and colours\<close>

text \<open>
  A colour is a triple of integer channel values. A \<open>Layer\<close> of the catalog carries its
  catalog index, its display name and its colour transform
  \<^verbatim>\<open>apply(colour, timestamp, x, y)\<close>, spelled \<open>layer_apply\<close> here. The catalog
  (\<^verbatim>\<open>get_layers()\<close>) and the \<^verbatim>\<open>invert\<close> layer come from modules \<^verbatim>\<open>layer_util\<close> and
  \<^verbatim>\<open>layers\<close>; every operation that consults them takes them as a parameter
  (\<open>catalog\<close>, \<open>invert\<close>), so each result holds for whatever they contain.
  Names are compared as Python compares \<^verbatim>\<open>str\<close>: lexicographically, character by
  character, a proper prefix being smaller.
\<close>

type_synonym colour = "int \<times> int \<times> int"

record Layer =
  index :: nat
  name :: string
  layer_apply :: "colour \<Rightarrow> int \<Rightarrow> int \<Rightarrow> int \<Rightarrow> colour"

text \<open>Every exception the primitives below can raise is a value of this type.\<close>

datatype error = QueueFull | QueueEmpty | StackFull | StackEmpty | KeyError | IndexError

section \<open>The container primitives\<close>

text \<open>
  Modelled from the spec: the fixed-length array \<^verbatim>\<open>ArrayR\<close> of module
  \<^verbatim>\<open>data_structures.referential_array\<close>. \<^verbatim>\<open>ArrayR(n)\<close> has \<open>n\<close> cells, each
  \<^verbatim>\<open>None\<close> until it is set; reading or writing outside \<open>0..<n\<close> raises
  \<^verbatim>\<open>IndexError\<close>.
\<close>

type_synonym 'a ArrayR = "'a option list"

definition ArrayR_init :: "nat \<Rightarrow> 'a ArrayR" where
  "ArrayR_init n = replicate n None"

definition arr_setitem :: "'a ArrayR \<Rightarrow> nat \<Rightarrow> 'a \<Rightarrow> error + 'a ArrayR" where
  "arr_setitem a i v = (if i < length a then Inr (a[i := Some v]) else Inl IndexError)"

definition arr_getitem :: "'a ArrayR \<Rightarrow> nat \<Rightarrow> error + 'a option" where
  "arr_getitem a i = (if i < length a then Inr (a ! i) else Inl IndexError)"

text \<open>
  Modelled from the spec: the bounded FIFO \<^verbatim>\<open>CircularQueue\<close> of module
  \<^verbatim>\<open>data_structures.queue_adt\<close>, with the interface the spec requires of it:
  \<^verbatim>\<open>append\<close> fails when the queue is full, \<^verbatim>\<open>serve\<close> returns the oldest item and fails
  when the queue is empty, plus \<^verbatim>\<open>is_full\<close>, \<^verbatim>\<open>is_empty\<close>, \<^verbatim>\<open>len\<close> and \<^verbatim>\<open>clear\<close>.
  \<open>items\<close> lists the content oldest first; \<open>capacity\<close> is the constructor's argument.
\<close>

record 'a CircularQueue =
  items :: "'a list"
  capacity :: nat

definition CircularQueue_init :: "nat \<Rightarrow> 'a CircularQueue" where
  "CircularQueue_init max_capacity = \<lparr>items = [], capacity = max_capacity\<rparr>"

definition cq_len :: "'a CircularQueue \<Rightarrow> nat" where
  "cq_len q = length (items q)"

definition cq_is_empty :: "'a CircularQueue \<Rightarrow> bool" where
  "cq_is_empty q = (cq_len q = 0)"

definition cq_is_full :: "'a CircularQueue \<Rightarrow> bool" where
  "cq_is_full q = (cq_len q = capacity q)"

definition cq_append :: "'a CircularQueue \<Rightarrow> 'a \<Rightarrow> error + 'a CircularQueue" where
  "cq_append q x = (if cq_is_full q then Inl QueueFull else Inr (q\<lparr>items := items q @ [x]\<rparr>))"

definition cq_serve :: "'a CircularQueue \<Rightarrow> error + ('a \<times> 'a CircularQueue)" where
  "cq_serve q = (case items q of [] \<Rightarrow> Inl QueueEmpty | x # xs \<Rightarrow> Inr (x, q\<lparr>items := xs\<rparr>))"

definition cq_clear :: "'a CircularQueue \<Rightarrow> 'a CircularQueue" where
  "cq_clear q = q\<lparr>items := []\<rparr>"

text \<open>
  Modelled from the spec: the bounded LIFO \<^verbatim>\<open>ArrayStack\<close> of module
  \<^verbatim>\<open>data_structures.stack_adt\<close>: \<^verbatim>\<open>push\<close>, \<^verbatim>\<open>pop\<close> and \<^verbatim>\<open>is_empty\<close>, where a push on a
  full stack and a pop on an empty one fail. \<open>stack_items\<close> lists the content top first.
\<close>

record 'a ArrayStack =
  stack_items :: "'a list"
  stack_capacity :: nat

definition ArrayStack_init :: "nat \<Rightarrow> 'a ArrayStack" where
  "ArrayStack_init max_capacity = \<lparr>stack_items = [], stack_capacity = max_capacity\<rparr>"

definition stack_is_empty :: "'a ArrayStack \<Rightarrow> bool" where
  "stack_is_empty st = (stack_items st = [])"

definition stack_is_full :: "'a ArrayStack \<Rightarrow> bool" where
  "stack_is_full st = (length (stack_items st) = stack_capacity st)"

definition stack_push :: "'a ArrayStack \<Rightarrow> 'a \<Rightarrow> error + 'a ArrayStack" where
  "stack_push st x =
     (if stack_is_full st then Inl StackFull else Inr (st\<lparr>stack_items := x # stack_items st\<rparr>))"

definition stack_pop :: "'a ArrayStack \<Rightarrow> error + ('a \<times> 'a ArrayStack)" where
  "stack_pop st =
     (case stack_items st of [] \<Rightarrow> Inl StackEmpty | x # xs \<Rightarrow> Inr (x, st\<lparr>stack_items := xs\<rparr>))"

text \<open>
  Modelled from the spec: the index set \<^verbatim>\<open>BSet\<close> of module \<^verbatim>\<open>data_structures.bset\<close>:
  \<^verbatim>\<open>add\<close>, the membership test, and \<^verbatim>\<open>remove\<close>, which fails with \<^verbatim>\<open>KeyError\<close> when the
  index is absent.
\<close>

type_synonym BSet = "nat set"

definition BSet_init :: BSet where
  "BSet_init = {}"

definition bset_contains :: "BSet \<Rightarrow> nat \<Rightarrow> bool" where
  "bset_contains b item = (item \<in> b)"

definition bset_add :: "BSet \<Rightarrow> nat \<Rightarrow> BSet" where
  "bset_add b item = insert item b"

definition bset_remove :: "BSet \<Rightarrow> nat \<Rightarrow> error + BSet" where
  "bset_remove b item = (if bset_contains b item then Inr (b - {item}) else Inl KeyError)"

text \<open>
  Modelled from the spec: the sorted list \<^verbatim>\<open>ArraySortedList\<close> of \<^verbatim>\<open>ListItem(value, key)\<close>
  entries (modules \<^verbatim>\<open>data_structures.array_sorted_list\<close> and
  \<^verbatim>\<open>data_structures.sorted_list_adt\<close>): \<^verbatim>\<open>add\<close> inserts an item so that the keys stay
  in ascending order, and the list is indexable by rank. The spec does not say where an
  item goes among items of an equal key; here it goes in front of them, and no result
  below depends on that choice. The field \<^verbatim>\<open>value\<close> is spelled \<open>item_value\<close>.
\<close>

record ListItem =
  item_value :: nat
  key :: string

fun sl_add :: "ListItem \<Rightarrow> ListItem list \<Rightarrow> ListItem list" where
  "sl_add item [] = [item]"
| "sl_add item (i # rest) =
     (if key i < key item then i # sl_add item rest else item # i # rest)"

definition sl_getitem :: "ListItem list \<Rightarrow> nat \<Rightarrow> error + ListItem" where
  "sl_getitem sl i = (if i < length sl then Inr (sl ! i) else Inl IndexError)"

section \<open>SetLayerStore\<close>

text \<open>
  \<^verbatim>\<open>self.layer\<close> is \<^verbatim>\<open>None\<close> or a layer; \<^verbatim>\<open>self.on_special\<close> is the inversion toggle.
  Every method that mutates the object returns its result together with the updated store.
  \<^verbatim>\<open>add\<close> compares the new layer with the held one by value.
\<close>

record SetLayerStore =
  layer :: "Layer option"
  on_special :: bool

definition SetLayerStore_init :: SetLayerStore where
  "SetLayerStore_init = \<lparr>layer = None, on_special = False\<rparr>"

definition SetLayerStore_add :: "SetLayerStore \<Rightarrow> Layer \<Rightarrow> bool \<times> SetLayerStore" where
  "SetLayerStore_add s l = (let flag = (Some l \<noteq> layer s) in (flag, s\<lparr>layer := Some l\<rparr>))"

definition SetLayerStore_get_color ::
  "Layer \<Rightarrow> SetLayerStore \<Rightarrow> colour \<Rightarrow> int \<Rightarrow> int \<Rightarrow> int \<Rightarrow> colour" where
  "SetLayerStore_get_color invert s start timestamp x y =
     (let colour = start;
          colour = (case layer s of
                      Some l \<Rightarrow> layer_apply l start timestamp x y
                    | None \<Rightarrow> colour);
          colour = (if on_special s then layer_apply invert colour timestamp x y else colour)
      in colour)"

definition SetLayerStore_erase :: "SetLayerStore \<Rightarrow> Layer \<Rightarrow> bool \<times> SetLayerStore" where
  "SetLayerStore_erase s l =
     (if layer s = None then (False, s) else (True, s\<lparr>layer := None\<rparr>))"

definition SetLayerStore_special :: "SetLayerStore \<Rightarrow> SetLayerStore" where
  "SetLayerStore_special s = s\<lparr>on_special := \<not> on_special s\<rparr>"

section \<open>AdditiveLayerStore\<close>

text \<open>
  \<^verbatim>\<open>self.layers\<close> is a queue of capacity \<^verbatim>\<open>len(get_layers()) * 100\<close>. The methods that
  call a failing primitive outside a \<^verbatim>\<open>try\<close> return \<open>error + \<dots>\<close>; \<^verbatim>\<open>erase\<close> catches
  the failure of \<^verbatim>\<open>serve\<close> and returns \<^verbatim>\<open>False\<close>. \<^verbatim>\<open>get_color\<close> rotates the queue while
  it computes, so it returns the store next to the colour.
\<close>

record AdditiveLayerStore =
  layers :: "Layer CircularQueue"

definition AdditiveLayerStore_init :: "Layer list \<Rightarrow> AdditiveLayerStore" where
  "AdditiveLayerStore_init catalog = \<lparr>layers = CircularQueue_init (length catalog * 100)\<rparr>"

definition AdditiveLayerStore_add ::
  "AdditiveLayerStore \<Rightarrow> Layer \<Rightarrow> error + (bool \<times> AdditiveLayerStore)" where
  "AdditiveLayerStore_add s l =
     (if cq_is_full (layers s) then Inr (False, s)
      else (case cq_append (layers s) l of
              Inl e \<Rightarrow> Inl e
            | Inr q \<Rightarrow> Inr (True, s\<lparr>layers := q\<rparr>)))"

text \<open>The body of \<^verbatim>\<open>for i in range(len(self.layers))\<close>, run the given number of times.\<close>

fun get_color_loop ::
  "nat \<Rightarrow> Layer CircularQueue \<Rightarrow> colour \<Rightarrow> int \<Rightarrow> int \<Rightarrow> int
     \<Rightarrow> error + (colour \<times> Layer CircularQueue)" where
  "get_color_loop 0 q colour timestamp x y = Inr (colour, q)"
| "get_color_loop (Suc n) q colour timestamp x y =
     (case cq_serve q of
        Inl e \<Rightarrow> Inl e
      | Inr (current_layer, q1) \<Rightarrow>
          (case cq_append q1 current_layer of
             Inl e \<Rightarrow> Inl e
           | Inr q2 \<Rightarrow>
               get_color_loop n q2 (layer_apply current_layer colour timestamp x y)
                 timestamp x y))"

definition AdditiveLayerStore_get_color ::
  "AdditiveLayerStore \<Rightarrow> colour \<Rightarrow> int \<Rightarrow> int \<Rightarrow> int
     \<Rightarrow> error + (colour \<times> AdditiveLayerStore)" where
  "AdditiveLayerStore_get_color s start timestamp x y =
     (case get_color_loop (cq_len (layers s)) (layers s) start timestamp x y of
        Inl e \<Rightarrow> Inl e
      | Inr (colour, q) \<Rightarrow> Inr (colour, s\<lparr>layers := q\<rparr>))"

definition AdditiveLayerStore_erase ::
  "AdditiveLayerStore \<Rightarrow> Layer \<Rightarrow> bool \<times> AdditiveLayerStore" where
  "AdditiveLayerStore_erase s l =
     (case cq_serve (layers s) of
        Inr (served, q) \<Rightarrow> (True, s\<lparr>layers := q\<rparr>)
      | Inl e \<Rightarrow> (False, s))"

text \<open>
  The two \<^verbatim>\<open>while\<close> loops of \<^verbatim>\<open>special\<close>: the first serves the queue into the stack
  until the queue is empty, the second pops the stack into the queue until the stack is
  empty.
\<close>

function special_drain ::
  "'a CircularQueue \<Rightarrow> 'a ArrayStack \<Rightarrow> error + ('a CircularQueue \<times> 'a ArrayStack)" where
  "special_drain q st =
     (if \<not> cq_is_empty q then
        (case cq_serve q of
           Inl e \<Rightarrow> Inl e
         | Inr (served, q') \<Rightarrow>
             (case stack_push st served of
                Inl e \<Rightarrow> Inl e
              | Inr st' \<Rightarrow> special_drain q' st'))
      else Inr (q, st))"
  by pat_completeness auto
termination
  by (relation "measure (\<lambda>(q, st). cq_len q)")
     (auto simp: cq_serve_def cq_len_def split: list.splits)

function special_refill ::
  "'a CircularQueue \<Rightarrow> 'a ArrayStack \<Rightarrow> error + ('a CircularQueue \<times> 'a ArrayStack)" where
  "special_refill q st =
     (if \<not> stack_is_empty st then
        (case stack_pop st of
           Inl e \<Rightarrow> Inl e
         | Inr (popped, st') \<Rightarrow>
             (case cq_append q popped of
                Inl e \<Rightarrow> Inl e
              | Inr q' \<Rightarrow> special_refill q' st'))
      else Inr (q, st))"
  by pat_completeness auto
termination
  by (relation "measure (\<lambda>(q, st). length (stack_items st))")
     (auto simp: stack_pop_def split: list.splits)

declare special_drain.simps [simp del] special_refill.simps [simp del]

definition AdditiveLayerStore_special :: "AdditiveLayerStore \<Rightarrow> error + AdditiveLayerStore" where
  "AdditiveLayerStore_special s =
     (let aux_stack = ArrayStack_init (cq_len (layers s)) in
      case special_drain (layers s) aux_stack of
        Inl e \<Rightarrow> Inl e
      | Inr (q, st) \<Rightarrow>
          (case special_refill q st of
             Inl e \<Rightarrow> Inl e
           | Inr (q', st') \<Rightarrow> Inr (s\<lparr>layers := q'\<rparr>)))"

text \<open>The queue's representation invariant: it never holds more than its capacity.\<close>

definition AdditiveLayerStore_invar :: "AdditiveLayerStore \<Rightarrow> bool" where
  "AdditiveLayerStore_invar s = (cq_len (layers s) \<le> capacity (layers s))"

section \<open>SequenceLayerStore\<close>

text \<open>
  \<^verbatim>\<open>self.layers\<close> is the set of present indices, spelled \<open>sequence_layers\<close>; a layer of
  catalog index \<open>i\<close> is stored as \<open>i + 1\<close>, and \<^verbatim>\<open>get_layers()[index - 1]\<close> reads the
  catalog entry of a stored index. \<^verbatim>\<open>erase\<close> catches the failure of \<^verbatim>\<open>remove\<close>;
  \<^verbatim>\<open>special\<close> has no handler, so it returns \<open>error + \<dots>\<close>.
\<close>

record SequenceLayerStore =
  sequence_layers :: BSet

definition SequenceLayerStore_init :: SequenceLayerStore where
  "SequenceLayerStore_init = \<lparr>sequence_layers = BSet_init\<rparr>"

definition SequenceLayerStore_add ::
  "SequenceLayerStore \<Rightarrow> Layer \<Rightarrow> bool \<times> SequenceLayerStore" where
  "SequenceLayerStore_add s l =
     (let idx = index l + 1;
          flag = (\<not> bset_contains (sequence_layers s) idx)
      in (flag, s\<lparr>sequence_layers := bset_add (sequence_layers s) idx\<rparr>))"

fun sequence_get_color_loop ::
  "Layer list \<Rightarrow> BSet \<Rightarrow> nat list \<Rightarrow> colour \<Rightarrow> int \<Rightarrow> int \<Rightarrow> int \<Rightarrow> colour" where
  "sequence_get_color_loop catalog b [] colour timestamp x y = colour"
| "sequence_get_color_loop catalog b (idx # rest) colour timestamp x y =
     sequence_get_color_loop catalog b rest
       (if bset_contains b idx
        then layer_apply (catalog ! (idx - 1)) colour timestamp x y
        else colour)
       timestamp x y"

definition SequenceLayerStore_get_color ::
  "Layer list \<Rightarrow> SequenceLayerStore \<Rightarrow> colour \<Rightarrow> int \<Rightarrow> int \<Rightarrow> int \<Rightarrow> colour" where
  "SequenceLayerStore_get_color catalog s start timestamp x y =
     sequence_get_color_loop catalog (sequence_layers s) [1..<length catalog + 1]
       start timestamp x y"

definition SequenceLayerStore_erase ::
  "SequenceLayerStore \<Rightarrow> Layer \<Rightarrow> bool \<times> SequenceLayerStore" where
  "SequenceLayerStore_erase s l =
     (let idx = index l + 1 in
      case bset_remove (sequence_layers s) idx of
        Inr b \<Rightarrow> (True, s\<lparr>sequence_layers := b\<rparr>)
      | Inl e \<Rightarrow> (False, s))"

text \<open>
  The loop of \<^verbatim>\<open>special\<close> over \<^verbatim>\<open>range(1, len(get_layers()) + 1)\<close>, which adds
  \<^verbatim>\<open>ListItem(index, name)\<close> to the sorted list for every present index.
\<close>

fun special_collect :: "Layer list \<Rightarrow> BSet \<Rightarrow> nat list \<Rightarrow> ListItem list \<Rightarrow> ListItem list" where
  "special_collect catalog b [] sorted_layer_names = sorted_layer_names"
| "special_collect catalog b (idx # rest) sorted_layer_names =
     special_collect catalog b rest
       (if bset_contains b idx
        then sl_add \<lparr>item_value = idx, key = name (catalog ! (idx - 1))\<rparr> sorted_layer_names
        else sorted_layer_names)"

definition SequenceLayerStore_special ::
  "Layer list \<Rightarrow> SequenceLayerStore \<Rightarrow> error + SequenceLayerStore" where
  "SequenceLayerStore_special catalog s =
     (let sorted_layer_names =
            special_collect catalog (sequence_layers s) [1..<length catalog + 1] []
      in if length sorted_layer_names > 0 then
           (case sl_getitem sorted_layer_names ((length sorted_layer_names - 1) div 2) of
              Inl e \<Rightarrow> Inl e
            | Inr median \<Rightarrow>
                (case bset_remove (sequence_layers s) (item_value median) of
                   Inl e \<Rightarrow> Inl e
                 | Inr b \<Rightarrow> Inr (s\<lparr>sequence_layers := b\<rparr>)))
         else Inr s)"

text \<open>
  The stored indices \<^verbatim>\<open>special\<close> looks at, in ascending order, and the catalog name of a
  stored index.
\<close>

definition present_indices :: "Layer list \<Rightarrow> SequenceLayerStore \<Rightarrow> nat list" where
  "present_indices catalog s =
     filter (bset_contains (sequence_layers s)) [1..<length catalog + 1]"

definition catalog_name :: "Layer list \<Rightarrow> nat \<Rightarrow> string" where
  "catalog_name catalog idx = name (catalog ! (idx - 1))"

section \<open>Grid\<close>

text \<open>
  Every cell of a grid holds one of the three stores. \<^verbatim>\<open>self.x\<close> and \<^verbatim>\<open>self.y\<close> are
  spelled \<open>grid_x\<close> and \<open>grid_y\<close>; the dimensions are natural numbers. The constructor
  takes the catalog because \<^verbatim>\<open>AdditiveLayerStore()\<close> reads its length.
\<close>

datatype LayerStore =
  SetStore SetLayerStore
| AdditiveStore AdditiveLayerStore
| SequenceStore SequenceLayerStore

definition DRAW_STYLE_SET :: string where
  "DRAW_STYLE_SET = ''SET''"

definition DRAW_STYLE_ADD :: string where
  "DRAW_STYLE_ADD = ''ADD''"

definition DRAW_STYLE_SEQUENCE :: string where
  "DRAW_STYLE_SEQUENCE = ''SEQUENCE''"

definition DRAW_STYLE_OPTIONS :: "string list" where
  "DRAW_STYLE_OPTIONS = [DRAW_STYLE_SET, DRAW_STYLE_ADD, DRAW_STYLE_SEQUENCE]"

definition DEFAULT_BRUSH_SIZE :: int where
  "DEFAULT_BRUSH_SIZE = 2"

definition MAX_BRUSH :: int where
  "MAX_BRUSH = 5"

definition MIN_BRUSH :: int where
  "MIN_BRUSH = 0"

record Grid =
  draw_style :: string
  grid_x :: nat
  grid_y :: nat
  brush_size :: int
  grid :: "LayerStore ArrayR ArrayR"

text \<open>
  The inner loop \<^verbatim>\<open>for j in range(y)\<close> of the constructor, over the row
  \<^verbatim>\<open>self.grid[i]\<close>, and the outer loop \<^verbatim>\<open>for i in range(x)\<close>, which stores a new row
  of length \<open>y\<close> at \<open>i\<close> and fills it.
\<close>

fun fill_row ::
  "string \<Rightarrow> Layer list \<Rightarrow> nat list \<Rightarrow> LayerStore ArrayR \<Rightarrow> error + LayerStore ArrayR" where
  "fill_row style catalog [] row = Inr row"
| "fill_row style catalog (j # js) row =
     (case arr_setitem row j
             (if style = DRAW_STYLE_SET then SetStore SetLayerStore_init
              else if style = DRAW_STYLE_ADD then AdditiveStore (AdditiveLayerStore_init catalog)
              else SequenceStore SequenceLayerStore_init) of
        Inl e \<Rightarrow> Inl e
      | Inr row' \<Rightarrow> fill_row style catalog js row')"

fun fill_grid ::
  "string \<Rightarrow> Layer list \<Rightarrow> nat \<Rightarrow> nat list \<Rightarrow> LayerStore ArrayR ArrayR
     \<Rightarrow> error + LayerStore ArrayR ArrayR" where
  "fill_grid style catalog y [] g = Inr g"
| "fill_grid style catalog y (i # rest) g =
     (case fill_row style catalog [0..<y] (ArrayR_init y) of
        Inl e \<Rightarrow> Inl e
      | Inr row \<Rightarrow>
          (case arr_setitem g i row of
             Inl e \<Rightarrow> Inl e
           | Inr g' \<Rightarrow> fill_grid style catalog y rest g'))"

definition Grid_init :: "Layer list \<Rightarrow> string \<Rightarrow> nat \<Rightarrow> nat \<Rightarrow> error + Grid" where
  "Grid_init catalog style x y =
     (case fill_grid style catalog y [0..<x] (ArrayR_init x) of
        Inl e \<Rightarrow> Inl e
      | Inr g \<Rightarrow>
          Inr \<lparr>draw_style = style, grid_x = x, grid_y = y,
               brush_size = DEFAULT_BRUSH_SIZE, grid = g\<rparr>)"

definition increase_brush_size :: "Grid \<Rightarrow> Grid" where
  "increase_brush_size g = g\<lparr>brush_size := min (brush_size g + 1) MAX_BRUSH\<rparr>"

definition decrease_brush_size :: "Grid \<Rightarrow> Grid" where
  "decrease_brush_size g = g\<lparr>brush_size := max (brush_size g - 1) MIN_BRUSH\<rparr>"

definition Grid_getitem :: "Grid \<Rightarrow> nat \<Rightarrow> error + LayerStore ArrayR option" where
  "Grid_getitem g i = arr_getitem (grid g) i"

section \<open>ReplayTracker\<close>

text \<open>
  Modelled from the spec: a \<^verbatim>\<open>PaintAction\<close> (module \<^verbatim>\<open>action\<close>) is opaque; it exposes
  \<^verbatim>\<open>redo_apply(grid)\<close> and \<^verbatim>\<open>undo_apply(grid)\<close>, each producing the effect of the
  action on the grid. A call of an effect mutates the grid and either returns normally or
  raises; its result here is the exception raised, if any, next to the grid as the call
  leaves it.
\<close>

record PaintAction =
  redo_apply :: "Grid \<Rightarrow> error option \<times> Grid"
  undo_apply :: "Grid \<Rightarrow> error option \<times> Grid"

text \<open>
  \<^verbatim>\<open>self.action_queue\<close> holds \<^verbatim>\<open>(action, is_undo)\<close> pairs. \<^verbatim>\<open>add_action\<close> takes
  \<open>is_undo\<close> explicitly (the source defaults it to \<^verbatim>\<open>False\<close>). \<^verbatim>\<open>play_next_action\<close>
  returns its flag, the tracker and the grid after the call. Its \<^verbatim>\<open>try\<close> block encloses
  \<^verbatim>\<open>serve\<close> and both effect calls, and its bare \<^verbatim>\<open>except\<close> answers every exception
  raised there with \<^verbatim>\<open>True\<close>: the failure of \<^verbatim>\<open>serve\<close> on an empty queue, and an
  exception raised by the effect of an entry already served.
\<close>

record ReplayTracker =
  action_queue :: "(PaintAction \<times> bool) CircularQueue"

definition ReplayTracker_init :: ReplayTracker where
  "ReplayTracker_init = \<lparr>action_queue = CircularQueue_init 11000\<rparr>"

definition start_replay :: "ReplayTracker \<Rightarrow> ReplayTracker" where
  "start_replay r = r"

definition add_action :: "ReplayTracker \<Rightarrow> PaintAction \<Rightarrow> bool \<Rightarrow> error + ReplayTracker" where
  "add_action r action is_undo =
     (if \<not> cq_is_full (action_queue r) then
        (case cq_append (action_queue r) (action, is_undo) of
           Inl e \<Rightarrow> Inl e
         | Inr q \<Rightarrow> Inr (r\<lparr>action_queue := q\<rparr>))
      else Inr r)"

definition play_next_action :: "ReplayTracker \<Rightarrow> Grid \<Rightarrow> bool \<times> ReplayTracker \<times> Grid" where
  "play_next_action r g =
     (case cq_serve (action_queue r) of
        Inr ((action, is_undo), q) \<Rightarrow>
          (case (if is_undo then undo_apply action g else redo_apply action g) of
             (None, g') \<Rightarrow> (False, r\<lparr>action_queue := q\<rparr>, g')
           | (Some e, g') \<Rightarrow> (True, r\<lparr>action_queue := q\<rparr>, g'))
      | Inl e \<Rightarrow> (True, r, g))"

definition ReplayTracker_clear :: "ReplayTracker \<Rightarrow> ReplayTracker" where
  "ReplayTracker_clear r = r\<lparr>action_queue := cq_clear (action_queue r)\<rparr>"

section \<open>Call histories and example values\<close>

text \<open>
  A history is a list of calls made on one object, run from left to right. Histories state
  what holds "after any sequence of calls".
\<close>

datatype set_call = SetAdd Layer | SetErase Layer | SetSpecial

fun set_step :: "SetLayerStore \<Rightarrow> set_call \<Rightarrow> SetLayerStore" where
  "set_step s (SetAdd l) = snd (SetLayerStore_add s l)"
| "set_step s (SetErase l) = snd (SetLayerStore_erase s l)"
| "set_step s SetSpecial = SetLayerStore_special s"

fun set_run :: "SetLayerStore \<Rightarrow> set_call list \<Rightarrow> SetLayerStore" where
  "set_run s [] = s"
| "set_run s (c # cs) = set_run (set_step s c) cs"

fun is_special_call :: "set_call \<Rightarrow> bool" where
  "is_special_call SetSpecial = True"
| "is_special_call _ = False"

datatype additive_call =
  AddAdd Layer | AddErase Layer | AddSpecial | AddGetColor colour int int int

fun additive_step :: "AdditiveLayerStore \<Rightarrow> additive_call \<Rightarrow> error + AdditiveLayerStore" where
  "additive_step s (AddAdd l) =
     (case AdditiveLayerStore_add s l of Inl e \<Rightarrow> Inl e | Inr (changed, s') \<Rightarrow> Inr s')"
| "additive_step s (AddErase l) = Inr (snd (AdditiveLayerStore_erase s l))"
| "additive_step s AddSpecial = AdditiveLayerStore_special s"
| "additive_step s (AddGetColor start timestamp x y) =
     (case AdditiveLayerStore_get_color s start timestamp x y of
        Inl e \<Rightarrow> Inl e
      | Inr (colour, s') \<Rightarrow> Inr s')"

fun additive_run :: "AdditiveLayerStore \<Rightarrow> additive_call list \<Rightarrow> error + AdditiveLayerStore" where
  "additive_run s [] = Inr s"
| "additive_run s (c # cs) =
     (case additive_step s c of Inl e \<Rightarrow> Inl e | Inr s' \<Rightarrow> additive_run s' cs)"

datatype brush_call = Increase | Decrease

fun brush_step :: "Grid \<Rightarrow> brush_call \<Rightarrow> Grid" where
  "brush_step g Increase = increase_brush_size g"
| "brush_step g Decrease = decrease_brush_size g"

fun brush_run :: "Grid \<Rightarrow> brush_call list \<Rightarrow> Grid" where
  "brush_run g [] = g"
| "brush_run g (c # cs) = brush_run (brush_step g c) cs"

text \<open>
  Recording a list of \<^verbatim>\<open>(action, is_undo)\<close> entries with \<^verbatim>\<open>add_action\<close>, one after the
  other, and calling \<^verbatim>\<open>play_next_action\<close> a number of times: the flags returned, in call
  order, with the tracker and the grid after the last call.
\<close>

fun record_all :: "ReplayTracker \<Rightarrow> (PaintAction \<times> bool) list \<Rightarrow> error + ReplayTracker" where
  "record_all r [] = Inr r"
| "record_all r ((action, is_undo) # es) =
     (case add_action r action is_undo of Inl e \<Rightarrow> Inl e | Inr r' \<Rightarrow> record_all r' es)"

fun play_times :: "nat \<Rightarrow> ReplayTracker \<Rightarrow> Grid \<Rightarrow> bool list \<times> ReplayTracker \<times> Grid" where
  "play_times 0 r g = ([], r, g)"
| "play_times (Suc n) r g =
     (case play_next_action r g of
        (flag, r', g') \<Rightarrow>
          (case play_times n r' g' of (flags, r'', g'') \<Rightarrow> (flag # flags, r'', g'')))"

text \<open>The effect call that playing one recorded entry makes on a grid.\<close>

fun entry_effect :: "PaintAction \<times> bool \<Rightarrow> Grid \<Rightarrow> error option \<times> Grid" where
  "entry_effect (action, is_undo) g = (if is_undo then undo_apply action g else redo_apply action g)"

text \<open>Four layers, a catalog made of them, and an additive store, for concrete runs.\<close>

definition example_black :: Layer where
  "example_black = \<lparr>index = 0, name = ''black'', layer_apply = (\<lambda>c t x y. (0, 0, 0))\<rparr>"

definition example_lighten :: Layer where
  "example_lighten = \<lparr>index = 1, name = ''lighten'',
     layer_apply = (\<lambda>(r, g, b) t x y. (min (r + 40) 255, min (g + 40) 255, min (b + 40) 255))\<rparr>"

definition example_invert :: Layer where
  "example_invert = \<lparr>index = 2, name = ''invert'',
     layer_apply = (\<lambda>(r, g, b) t x y. (255 - r, 255 - g, 255 - b))\<rparr>"

definition example_darken :: Layer where
  "example_darken = \<lparr>index = 3, name = ''darken'',
     layer_apply = (\<lambda>(r, g, b) t x y. (max (r - 40) 0, max (g - 40) 0, max (b - 40) 0))\<rparr>"

definition example_catalog :: "Layer list" where
  "example_catalog = [example_black, example_lighten, example_invert, example_darken]"

definition example_additive :: AdditiveLayerStore where
  "example_additive =
     \<lparr>layers = \<lparr>items = [example_black, example_lighten, example_invert], capacity = 400\<rparr>\<rparr>"

text \<open>
  A grid of one cell, and an action whose two effects address row 5 of the grid they are
  given: on a grid with fewer rows the read \<^verbatim>\<open>grid[5]\<close> raises \<^verbatim>\<open>IndexError\<close> before
  anything is changed.
\<close>

definition example_grid :: Grid where
  "example_grid =
     \<lparr>draw_style = ''SET'', grid_x = 1, grid_y = 1, brush_size = 2,
      grid = [Some [Some (SetStore \<lparr>layer = None, on_special = False\<rparr>)]]\<rparr>"

definition example_row5_action :: PaintAction where
  "example_row5_action =
     \<lparr>redo_apply = (\<lambda>g. case Grid_getitem g 5 of Inl e \<Rightarrow> (Some e, g) | Inr row \<Rightarrow> (None, g)),
      undo_apply = (\<lambda>g. case Grid_getitem g 5 of Inl e \<Rightarrow> (Some e, g) | Inr row \<Rightarrow> (None, g))\<rparr>"

section \<open>Properties of SetLayerStore\<close>

lemma SetLayerStore_special_twice: "SetLayerStore_special (SetLayerStore_special s) = s"
  by (simp add: SetLayerStore_special_def)

lemma set_step_on_special:
  "on_special (set_step s c) = (if is_special_call c then \<not> on_special s else on_special s)"
  by (cases c) (simp_all add: SetLayerStore_add_def SetLayerStore_erase_def
      SetLayerStore_special_def Let_def)

lemma set_run_on_special:
  "on_special (set_run s cs) = (on_special s \<noteq> odd (length (filter is_special_call cs)))"
proof (induction cs arbitrary: s)
  case Nil
  show ?case by simp
next
  case (Cons c cs)
  show ?case by (cases "is_special_call c") (simp_all add: Cons.IH set_step_on_special)
qed

text \<open>
  C6. Calling \<^verbatim>\<open>special()\<close> twice in succession on any SetLayerStore gives back
  the colour \<^verbatim>\<open>get_color\<close> produced before the first call, for every start colour,
  timestamp and position (and whatever the invert layer does).
\<close>

theorem SetLayerStore_special_involution:
  "SetLayerStore_get_color invert (SetLayerStore_special (SetLayerStore_special s))
       start timestamp x y
   = SetLayerStore_get_color invert s start timestamp x y"
  by (simp add: SetLayerStore_special_twice)

text \<open>
  C10. Neither \<^verbatim>\<open>add\<close> nor \<^verbatim>\<open>erase\<close> touches \<^verbatim>\<open>on_special\<close>, while \<^verbatim>\<open>special\<close>
  flips it. So after any history of calls on a fresh store, the flag is set exactly when
  \<^verbatim>\<open>special()\<close> was called an odd number of times, and once \<^verbatim>\<open>erase\<close> has cleared the
  layer, \<^verbatim>\<open>get_color\<close> is the inversion of the start colour in that case and the start
  colour itself otherwise.
\<close>

theorem SetLayerStore_polarity_frame:
  "on_special (snd (SetLayerStore_add s l)) = on_special s
   \<and> on_special (snd (SetLayerStore_erase s l)) = on_special s
   \<and> on_special (SetLayerStore_special s) = (\<not> on_special s)
   \<and> layer (snd (SetLayerStore_erase s l)) = None
   \<and> on_special (set_run SetLayerStore_init cs) = odd (length (filter is_special_call cs))
   \<and> SetLayerStore_get_color invert
        (snd (SetLayerStore_erase (set_run SetLayerStore_init cs) l)) start timestamp x y
      = (if odd (length (filter is_special_call cs))
         then layer_apply invert start timestamp x y else start)"
proof -
  have flag: "on_special (snd (SetLayerStore_erase t l)) = on_special t" for t
    by (simp add: SetLayerStore_erase_def)
  have cleared: "layer (snd (SetLayerStore_erase t l)) = None" for t
    by (simp add: SetLayerStore_erase_def)
  have hist: "on_special (set_run SetLayerStore_init cs)
                = odd (length (filter is_special_call cs))"
    by (simp add: set_run_on_special SetLayerStore_init_def)
  have "SetLayerStore_get_color invert
          (snd (SetLayerStore_erase (set_run SetLayerStore_init cs) l)) start timestamp x y
        = (if odd (length (filter is_special_call cs))
           then layer_apply invert start timestamp x y else start)"
    by (simp add: SetLayerStore_get_color_def flag cleared hist)
  moreover have "on_special (snd (SetLayerStore_add s l)) = on_special s"
    by (simp add: SetLayerStore_add_def Let_def)
  moreover have "on_special (SetLayerStore_special s) = (\<not> on_special s)"
    by (simp add: SetLayerStore_special_def)
  ultimately show ?thesis using flag cleared hist by simp
qed

section \<open>Properties of AdditiveLayerStore\<close>

lemma special_drain_eq:
  "items q = xs \<Longrightarrow> length xs + length (stack_items st) \<le> stack_capacity st \<Longrightarrow>
   special_drain q st = Inr (q\<lparr>items := []\<rparr>, st\<lparr>stack_items := rev xs @ stack_items st\<rparr>)"
proof (induction xs arbitrary: q st)
  case Nil
  then show ?case
    by (subst special_drain.simps) (simp add: cq_is_empty_def cq_len_def)
next
  case (Cons x xs)
  have step: "special_drain q st
        = special_drain (q\<lparr>items := xs\<rparr>) (st\<lparr>stack_items := x # stack_items st\<rparr>)"
    using Cons.prems
    by (subst special_drain.simps)
       (simp add: cq_is_empty_def cq_len_def cq_serve_def stack_push_def stack_is_full_def)
  show ?case
    using Cons.prems by (simp add: step Cons.IH)
qed

lemma special_refill_eq:
  "stack_items st = xs \<Longrightarrow> length (items q) + length xs \<le> capacity q \<Longrightarrow>
   special_refill q st = Inr (q\<lparr>items := items q @ xs\<rparr>, st\<lparr>stack_items := []\<rparr>)"
proof (induction xs arbitrary: q st)
  case Nil
  then show ?case
    by (subst special_refill.simps) (simp add: stack_is_empty_def)
next
  case (Cons x xs)
  have step: "special_refill q st
        = special_refill (q\<lparr>items := items q @ [x]\<rparr>) (st\<lparr>stack_items := xs\<rparr>)"
    using Cons.prems
    by (subst special_refill.simps)
       (simp add: stack_is_empty_def stack_pop_def cq_append_def cq_is_full_def cq_len_def)
  show ?case
    using Cons.prems by (simp add: step Cons.IH)
qed

lemma AdditiveLayerStore_special_eq:
  assumes "AdditiveLayerStore_invar s"
  shows "AdditiveLayerStore_special s
         = Inr (s\<lparr>layers := (layers s)\<lparr>items := rev (items (layers s))\<rparr>\<rparr>)"
proof -
  have d: "special_drain (layers s) (ArrayStack_init (cq_len (layers s)))
        = Inr ((layers s)\<lparr>items := []\<rparr>,
               (ArrayStack_init (cq_len (layers s)))\<lparr>stack_items := rev (items (layers s))\<rparr>)"
    using special_drain_eq [of "layers s" "items (layers s)" "ArrayStack_init (cq_len (layers s))"]
    by (simp add: ArrayStack_init_def cq_len_def)
  have r: "special_refill ((layers s)\<lparr>items := []\<rparr>)
             ((ArrayStack_init (cq_len (layers s)))\<lparr>stack_items := rev (items (layers s))\<rparr>)
        = Inr ((layers s)\<lparr>items := rev (items (layers s))\<rparr>,
               (ArrayStack_init (cq_len (layers s)))\<lparr>stack_items := []\<rparr>)"
    using assms
      special_refill_eq [of _ "rev (items (layers s))" "(layers s)\<lparr>items := []\<rparr>"]
    by (simp add: AdditiveLayerStore_invar_def cq_len_def)
  show ?thesis
    by (simp add: AdditiveLayerStore_special_def Let_def d r)
qed

lemma get_color_loop_eq:
  "n \<le> length (items q) \<Longrightarrow> length (items q) \<le> capacity q \<Longrightarrow>
   get_color_loop n q colour timestamp x y
   = Inr (fold (\<lambda>l c. layer_apply l c timestamp x y) (take n (items q)) colour,
          q\<lparr>items := drop n (items q) @ take n (items q)\<rparr>)"
proof (induction n arbitrary: q colour)
  case 0
  then show ?case by simp
next
  case (Suc n)
  then obtain l ls where its: "items q = l # ls"
    by (cases "items q") auto
  have serve: "cq_serve q = Inr (l, q\<lparr>items := ls\<rparr>)"
    by (simp add: cq_serve_def its)
  have app: "cq_append (q\<lparr>items := ls\<rparr>) l = Inr (q\<lparr>items := ls @ [l]\<rparr>)"
    using Suc.prems by (simp add: cq_append_def cq_is_full_def cq_len_def its)
  have n: "n \<le> length ls" using Suc.prems by (simp add: its)
  have "get_color_loop (Suc n) q colour timestamp x y
        = get_color_loop n (q\<lparr>items := ls @ [l]\<rparr>) (layer_apply l colour timestamp x y) timestamp x y"
    by (simp add: serve app)
  also have "\<dots> = Inr (fold (\<lambda>l c. layer_apply l c timestamp x y) (take n ls)
                          (layer_apply l colour timestamp x y),
                      q\<lparr>items := drop n ls @ [l] @ take n ls\<rparr>)"
    using Suc.prems n by (subst Suc.IH) (simp_all add: its)
  finally show ?case by (simp add: its)
qed

lemma AdditiveLayerStore_get_color_eq:
  assumes "AdditiveLayerStore_invar s"
  shows "AdditiveLayerStore_get_color s start timestamp x y
         = Inr (fold (\<lambda>l c. layer_apply l c timestamp x y) (items (layers s)) start, s)"
  using assms get_color_loop_eq [of "cq_len (layers s)" "layers s" start timestamp x y]
  by (simp add: AdditiveLayerStore_get_color_def AdditiveLayerStore_invar_def cq_len_def)

lemma AdditiveLayerStore_add_eq:
  "AdditiveLayerStore_add s l =
     (if cq_len (layers s) = capacity (layers s) then Inr (False, s)
      else Inr (True, s\<lparr>layers := (layers s)\<lparr>items := items (layers s) @ [l]\<rparr>\<rparr>))"
  by (simp add: AdditiveLayerStore_add_def cq_is_full_def cq_append_def)

lemma AdditiveLayerStore_erase_eq:
  "snd (AdditiveLayerStore_erase s l) = s\<lparr>layers := (layers s)\<lparr>items := tl (items (layers s))\<rparr>\<rparr>"
  by (cases "items (layers s)") (simp_all add: AdditiveLayerStore_erase_def cq_serve_def)

text \<open>
  The invariant holds for a fresh store and every call keeps it, together with the
  capacity; no call of a history fails.
\<close>

lemma AdditiveLayerStore_init_invar:
  "AdditiveLayerStore_invar (AdditiveLayerStore_init catalog)"
  by (simp add: AdditiveLayerStore_invar_def AdditiveLayerStore_init_def CircularQueue_init_def
      cq_len_def)

lemma additive_step_invar:
  assumes "AdditiveLayerStore_invar s"
  shows "\<exists>s'. additive_step s c = Inr s' \<and> AdditiveLayerStore_invar s'
              \<and> capacity (layers s') = capacity (layers s)"
proof (cases c)
  case (AddAdd l)
  show ?thesis
    using assms
    by (auto simp: AddAdd AdditiveLayerStore_add_eq AdditiveLayerStore_invar_def cq_len_def)
next
  case (AddErase l)
  show ?thesis
    using assms
    by (simp add: AddErase AdditiveLayerStore_erase_eq AdditiveLayerStore_invar_def cq_len_def)
next
  case AddSpecial
  show ?thesis
    using assms
    by (simp add: AddSpecial AdditiveLayerStore_special_eq AdditiveLayerStore_invar_def cq_len_def)
next
  case (AddGetColor start timestamp x y)
  show ?thesis
    using assms by (simp add: AddGetColor AdditiveLayerStore_get_color_eq)
qed

lemma additive_run_invar:
  "AdditiveLayerStore_invar s \<Longrightarrow>
   \<exists>s'. additive_run s cs = Inr s' \<and> AdditiveLayerStore_invar s'
        \<and> capacity (layers s') = capacity (layers s)"
proof (induction cs arbitrary: s)
  case Nil
  then show ?case by simp
next
  case (Cons c cs)
  from additive_step_invar [OF Cons.prems, of c] obtain s1 where
    s1: "additive_step s c = Inr s1" "AdditiveLayerStore_invar s1"
        "capacity (layers s1) = capacity (layers s)"
    by blast
  from Cons.IH [OF s1(2)] s1 show ?case by auto
qed

text \<open>
  C2. On a store whose queue respects its capacity, \<^verbatim>\<open>get_color\<close> returns normally, its
  colour is the start colour folded through the \<^verbatim>\<open>apply\<close> of every stored layer, oldest
  first, and the store after the call is the store before it: the same layers in the same
  order.
\<close>

theorem AdditiveLayerStore_get_color_fifo:
  assumes "AdditiveLayerStore_invar s"
  shows "AdditiveLayerStore_get_color s start timestamp x y
         = Inr (fold (\<lambda>l c. layer_apply l c timestamp x y) (items (layers s)) start, s)"
  using assms by (rule AdditiveLayerStore_get_color_eq)

theorem AdditiveLayerStore_get_color_fifo_witness:
  "AdditiveLayerStore_invar example_additive
   \<and> AdditiveLayerStore_get_color example_additive (10, 20, 30) 0 0 0
       = Inr ((215, 215, 215), example_additive)"
proof -
  have h: "AdditiveLayerStore_invar example_additive"
    by (simp add: AdditiveLayerStore_invar_def example_additive_def cq_len_def)
  show ?thesis
    using h AdditiveLayerStore_get_color_fifo [OF h, of "(10, 20, 30)" 0 0 0]
    by (simp add: example_additive_def example_lighten_def example_invert_def example_black_def)
qed

text \<open>
  C3. On a store whose queue respects its capacity, \<^verbatim>\<open>special()\<close> returns normally and
  leaves the stored layers in reversed order (the oldest is now the newest), with the same
  layers counted with multiplicity and the same capacity; a second \<^verbatim>\<open>special()\<close> gives
  back exactly the original store.
\<close>

theorem AdditiveLayerStore_special_reverses:
  assumes "AdditiveLayerStore_invar s"
  shows "\<exists>s'. AdditiveLayerStore_special s = Inr s'
            \<and> items (layers s') = rev (items (layers s))
            \<and> capacity (layers s') = capacity (layers s)
            \<and> mset (items (layers s')) = mset (items (layers s))
            \<and> AdditiveLayerStore_special s' = Inr s"
proof -
  let ?s' = "s\<lparr>layers := (layers s)\<lparr>items := rev (items (layers s))\<rparr>\<rparr>"
  have inv': "AdditiveLayerStore_invar ?s'"
    using assms by (simp add: AdditiveLayerStore_invar_def cq_len_def)
  have "AdditiveLayerStore_special ?s' = Inr s"
    by (simp add: AdditiveLayerStore_special_eq [OF inv'])
  then show ?thesis
    by (simp add: AdditiveLayerStore_special_eq [OF assms])
qed

theorem AdditiveLayerStore_special_reverses_witness:
  "AdditiveLayerStore_invar example_additive
   \<and> (\<exists>s'. AdditiveLayerStore_special example_additive = Inr s'
         \<and> items (layers s') = [example_invert, example_lighten, example_black]
         \<and> AdditiveLayerStore_special s' = Inr example_additive)"
proof -
  have h: "AdditiveLayerStore_invar example_additive"
    by (simp add: AdditiveLayerStore_invar_def example_additive_def cq_len_def)
  from AdditiveLayerStore_special_reverses [OF h] obtain s' where
    "AdditiveLayerStore_special example_additive = Inr s'"
    "items (layers s') = rev (items (layers example_additive))"
    "AdditiveLayerStore_special s' = Inr example_additive"
    by blast
  then show ?thesis
    using h by (auto simp: example_additive_def)
qed

text \<open>
  C5. After any history of calls on a fresh AdditiveLayerStore no call has failed, the
  capacity is still 100 times the catalog size and the number of stored layers does not
  exceed it. On such a store \<^verbatim>\<open>add(layer)\<close> returns \<^verbatim>\<open>True\<close> with the layer appended at
  the tail when fewer layers than the capacity are stored, and returns \<^verbatim>\<open>False\<close> with the
  store unchanged otherwise, that is at capacity.
\<close>

theorem AdditiveLayerStore_capacity:
  "\<exists>s. additive_run (AdditiveLayerStore_init catalog) calls = Inr s
       \<and> capacity (layers s) = length catalog * 100
       \<and> cq_len (layers s) \<le> length catalog * 100
       \<and> AdditiveLayerStore_add s l =
           (if cq_len (layers s) < length catalog * 100
            then Inr (True, s\<lparr>layers := (layers s)\<lparr>items := items (layers s) @ [l]\<rparr>\<rparr>)
            else Inr (False, s))"
proof -
  from additive_run_invar [OF AdditiveLayerStore_init_invar, of catalog calls] obtain s where
    s: "additive_run (AdditiveLayerStore_init catalog) calls = Inr s"
       "AdditiveLayerStore_invar s"
       "capacity (layers s) = capacity (layers (AdditiveLayerStore_init catalog))"
    by blast
  have cap: "capacity (layers s) = length catalog * 100"
    using s(3) by (simp add: AdditiveLayerStore_init_def CircularQueue_init_def)
  have len: "cq_len (layers s) \<le> length catalog * 100"
    using s(2) cap by (simp add: AdditiveLayerStore_invar_def)
  have "AdditiveLayerStore_add s l =
           (if cq_len (layers s) < length catalog * 100
            then Inr (True, s\<lparr>layers := (layers s)\<lparr>items := items (layers s) @ [l]\<rparr>\<rparr>)
            else Inr (False, s))"
    using len cap by (auto simp: AdditiveLayerStore_add_eq)
  with s(1) cap len show ?thesis by blast
qed

section \<open>Properties of SequenceLayerStore\<close>

lemma sl_add_insort: "sl_add item sl = insort_key key item sl"
  by (induction sl) (auto simp: not_less)

lemma special_collect_mset:
  "mset (special_collect catalog b idxs acc)
   = mset acc + mset (map (\<lambda>idx. \<lparr>item_value = idx, key = catalog_name catalog idx\<rparr>)
                        (filter (bset_contains b) idxs))"
  by (induction idxs arbitrary: acc) (simp_all add: sl_add_insort catalog_name_def)

lemma special_collect_sorted:
  "sorted (map key acc) \<Longrightarrow> sorted (map key (special_collect catalog b idxs acc))"
  by (induction idxs arbitrary: acc) (simp_all add: sl_add_insort sorted_insort_key)

lemma special_collect_keys_mset:
  "mset (map key (special_collect catalog b idxs acc))
   = mset (map key acc) + mset (map (catalog_name catalog) (filter (bset_contains b) idxs))"
  by (induction idxs arbitrary: acc) (simp_all add: sl_add_insort catalog_name_def)

lemma special_collect_keys:
  "map key (special_collect catalog b idxs [])
   = sort (map (catalog_name catalog) (filter (bset_contains b) idxs))"
proof -
  have "sorted (map key (special_collect catalog b idxs []))"
    by (rule special_collect_sorted) simp
  moreover have "mset (map key (special_collect catalog b idxs []))
      = mset (map (catalog_name catalog) (filter (bset_contains b) idxs))"
    by (simp only: special_collect_keys_mset) simp
  ultimately have "sort (map (catalog_name catalog) (filter (bset_contains b) idxs))
      = map key (special_collect catalog b idxs [])"
    by (rule properties_for_sort [rotated])
  then show ?thesis by simp
qed

lemma special_collect_set:
  "set (special_collect catalog b idxs acc)
   = set acc \<union> (\<lambda>idx. \<lparr>item_value = idx, key = catalog_name catalog idx\<rparr>)
                  ` set (filter (bset_contains b) idxs)"
  by (induction idxs arbitrary: acc) (auto simp: sl_add_insort set_insort_key catalog_name_def)

lemma special_collect_length:
  "length (special_collect catalog b idxs acc)
   = length acc + length (filter (bset_contains b) idxs)"
  by (induction idxs arbitrary: acc) (simp_all add: sl_add_insort)

text \<open>
  C1. \<^verbatim>\<open>special()\<close> on a SequenceLayerStore returns normally. When no index of the
  catalog range is present, the store is unchanged. Otherwise exactly one present index
  \<open>k\<close> is removed, every other index staying as it was, and the catalog name of \<open>k\<close>
  is the name at position \<^verbatim>\<open>(count - 1) // 2\<close> of the present names sorted in ascending
  order, \<open>count\<close> being the number of present indices: the single middle for an odd
  count, the smaller of the two middles for an even one.
\<close>

theorem SequenceLayerStore_special_median:
  "(present_indices catalog s = [] \<and> SequenceLayerStore_special catalog s = Inr s)
   \<or> (present_indices catalog s \<noteq> []
      \<and> (\<exists>k. k \<in> set (present_indices catalog s)
            \<and> bset_contains (sequence_layers s) k
            \<and> catalog_name catalog k
                = sort (map (catalog_name catalog) (present_indices catalog s))
                    ! ((length (present_indices catalog s) - 1) div 2)
            \<and> SequenceLayerStore_special catalog s
                = Inr (s\<lparr>sequence_layers := sequence_layers s - {k}\<rparr>)))"
proof -
  define sl where "sl = special_collect catalog (sequence_layers s) [1..<length catalog + 1] []"
  define pos where "pos = (length sl - 1) div 2"
  have run: "SequenceLayerStore_special catalog s =
      (if length sl > 0 then
         (case sl_getitem sl pos of
            Inl e \<Rightarrow> Inl e
          | Inr median \<Rightarrow>
              (case bset_remove (sequence_layers s) (item_value median) of
                 Inl e \<Rightarrow> Inl e
               | Inr b \<Rightarrow> Inr (s\<lparr>sequence_layers := b\<rparr>)))
       else Inr s)"
    unfolding SequenceLayerStore_special_def sl_def pos_def Let_def ..
  have len: "length sl = length (present_indices catalog s)"
    unfolding sl_def present_indices_def by (simp only: special_collect_length list.size add_0)
  show ?thesis
  proof (cases "present_indices catalog s = []")
    case True
    then show ?thesis
      using len by (simp add: run)
  next
    case False
    then have "0 < length sl"
      using len by simp
    then have pos: "0 < length sl" "pos < length sl"
      unfolding pos_def by arith+
    then have "sl ! pos \<in> set sl"
      by simp
    then obtain k where k: "k \<in> set (present_indices catalog s)"
        "sl ! pos = \<lparr>item_value = k, key = catalog_name catalog k\<rparr>"
      unfolding sl_def special_collect_set present_indices_def by auto
    have mem: "bset_contains (sequence_layers s) k"
      using k(1) by (simp add: present_indices_def)
    have "catalog_name catalog k = key (sl ! pos)"
      by (simp add: k(2))
    also have "\<dots> = map key sl ! pos"
      using pos(2) by simp
    also have "\<dots> = sort (map (catalog_name catalog) (present_indices catalog s)) ! pos"
      unfolding sl_def present_indices_def by (simp only: special_collect_keys)
    finally have nm: "catalog_name catalog k
        = sort (map (catalog_name catalog) (present_indices catalog s))
            ! ((length (present_indices catalog s) - 1) div 2)"
      by (simp only: pos_def len)
    have "SequenceLayerStore_special catalog s
            = Inr (s\<lparr>sequence_layers := sequence_layers s - {k}\<rparr>)"
      using pos mem by (simp add: run sl_getitem_def k(2) bset_remove_def)
    with False k(1) mem nm show ?thesis by blast
  qed
qed

theorem SequenceLayerStore_special_median_witness:
  "SequenceLayerStore_special example_catalog \<lparr>sequence_layers = {1, 2, 3, 4}\<rparr>
     = Inr \<lparr>sequence_layers = {1, 2, 3}\<rparr>
   \<and> SequenceLayerStore_special example_catalog \<lparr>sequence_layers = {1, 2, 3}\<rparr>
     = Inr \<lparr>sequence_layers = {1, 2}\<rparr>
   \<and> SequenceLayerStore_special example_catalog \<lparr>sequence_layers = {}\<rparr>
     = Inr \<lparr>sequence_layers = {}\<rparr>"
proof (intro conjI)
  show "SequenceLayerStore_special example_catalog \<lparr>sequence_layers = {1, 2, 3, 4}\<rparr>
     = Inr \<lparr>sequence_layers = {1, 2, 3}\<rparr>"
    using SequenceLayerStore_special_median
      [of example_catalog "\<lparr>sequence_layers = {1, 2, 3, 4}\<rparr>"]
    by (simp add: present_indices_def bset_contains_def example_catalog_def catalog_name_def
        example_black_def example_lighten_def example_invert_def example_darken_def upt_rec)
       auto
  show "SequenceLayerStore_special example_catalog \<lparr>sequence_layers = {1, 2, 3}\<rparr>
     = Inr \<lparr>sequence_layers = {1, 2}\<rparr>"
    using SequenceLayerStore_special_median
      [of example_catalog "\<lparr>sequence_layers = {1, 2, 3}\<rparr>"]
    by (simp add: present_indices_def bset_contains_def example_catalog_def catalog_name_def
        example_black_def example_lighten_def example_invert_def example_darken_def upt_rec)
       auto
  show "SequenceLayerStore_special example_catalog \<lparr>sequence_layers = {}\<rparr>
     = Inr \<lparr>sequence_layers = {}\<rparr>"
    using SequenceLayerStore_special_median
      [of example_catalog "\<lparr>sequence_layers = {}\<rparr>"]
    by (simp add: present_indices_def bset_contains_def)
qed

text \<open>
  C7. \<^verbatim>\<open>add(layer)\<close> leaves the index of the layer present and returns \<^verbatim>\<open>True\<close>
  exactly when it was absent before; on a present index it changes nothing and returns
  \<^verbatim>\<open>False\<close>. \<^verbatim>\<open>erase(layer)\<close> leaves the index absent and returns \<^verbatim>\<open>True\<close> exactly
  when it was present before; on an absent index it changes nothing and returns
  \<^verbatim>\<open>False\<close>. No other index is touched by either call.
\<close>

theorem SequenceLayerStore_add_erase:
  "SequenceLayerStore_add s l
     = (\<not> bset_contains (sequence_layers s) (index l + 1),
        s\<lparr>sequence_layers := insert (index l + 1) (sequence_layers s)\<rparr>)
   \<and> bset_contains (sequence_layers (snd (SequenceLayerStore_add s l))) (index l + 1)
   \<and> (if bset_contains (sequence_layers s) (index l + 1)
      then SequenceLayerStore_add s l = (False, s)
      else fst (SequenceLayerStore_add s l) = True)
   \<and> SequenceLayerStore_erase s l
     = (bset_contains (sequence_layers s) (index l + 1),
        s\<lparr>sequence_layers := sequence_layers s - {index l + 1}\<rparr>)
   \<and> \<not> bset_contains (sequence_layers (snd (SequenceLayerStore_erase s l))) (index l + 1)
   \<and> (if bset_contains (sequence_layers s) (index l + 1)
      then fst (SequenceLayerStore_erase s l) = True
      else SequenceLayerStore_erase s l = (False, s))"
  by (auto simp: SequenceLayerStore_add_def SequenceLayerStore_erase_def Let_def
      bset_contains_def bset_add_def bset_remove_def insert_absorb)

section \<open>Properties of Grid\<close>

lemma fill_row_eq:
  "\<forall>j \<in> set js. j < length row \<Longrightarrow>
   fill_row style catalog js row
   = Inr (fold (\<lambda>j r. r[j := Some (if style = DRAW_STYLE_SET then SetStore SetLayerStore_init
              else if style = DRAW_STYLE_ADD then AdditiveStore (AdditiveLayerStore_init catalog)
              else SequenceStore SequenceLayerStore_init)]) js row)"
  by (induction js arbitrary: row) (simp_all add: arr_setitem_def)

lemma fold_update_upt:
  "n \<le> length xs \<Longrightarrow> fold (\<lambda>j r. r[j := v]) [0..<n] xs = replicate n v @ drop n xs"
proof (induction n)
  case 0
  then show ?case by simp
next
  case (Suc n)
  then have "fold (\<lambda>j r. r[j := v]) [0..<Suc n] xs = (replicate n v @ drop n xs)[n := v]"
    by simp
  also have "\<dots> = replicate n v @ (drop n xs)[0 := v]"
    by (simp add: list_update_append)
  also have "\<dots> = replicate n v @ v # drop (Suc n) xs"
    using Suc.prems by (simp add: Cons_nth_drop_Suc [symmetric])
  also have "\<dots> = replicate (Suc n) v @ drop (Suc n) xs"
    by (simp add: replicate_app_Cons_same)
  finally show ?case .
qed

lemma fill_row_full:
  "fill_row style catalog [0..<y] (ArrayR_init y)
   = Inr (replicate y (Some (if style = DRAW_STYLE_SET then SetStore SetLayerStore_init
              else if style = DRAW_STYLE_ADD then AdditiveStore (AdditiveLayerStore_init catalog)
              else SequenceStore SequenceLayerStore_init)))"
  by (subst fill_row_eq) (simp_all add: ArrayR_init_def fold_update_upt)

lemma fill_grid_eq:
  "\<forall>i \<in> set rows. i < length g \<Longrightarrow>
   fill_grid style catalog y rows g
   = Inr (fold (\<lambda>i r. r[i := Some (replicate y (Some (if style = DRAW_STYLE_SET then SetStore SetLayerStore_init
              else if style = DRAW_STYLE_ADD then AdditiveStore (AdditiveLayerStore_init catalog)
              else SequenceStore SequenceLayerStore_init)))]) rows g)"
  by (induction rows arbitrary: g) (simp_all add: arr_setitem_def fill_row_full)

lemma Grid_init_eq:
  "Grid_init catalog style x y
   = Inr \<lparr>draw_style = style, grid_x = x, grid_y = y, brush_size = 2,
          grid = replicate x (Some (replicate y
            (Some (if style = DRAW_STYLE_SET then SetStore SetLayerStore_init
              else if style = DRAW_STYLE_ADD then AdditiveStore (AdditiveLayerStore_init catalog)
              else SequenceStore SequenceLayerStore_init))))\<rparr>"
  unfolding Grid_init_def
  by (subst fill_grid_eq) (simp_all add: ArrayR_init_def fold_update_upt DEFAULT_BRUSH_SIZE_def)

text \<open>
  C9. For a draw style that is neither \<^verbatim>\<open>"SET"\<close> nor \<^verbatim>\<open>"ADD"\<close>, whether or not it is
  one of \<^verbatim>\<open>DRAW_STYLE_OPTIONS\<close>, the constructor returns normally and every cell of the
  \<open>x\<close> by \<open>y\<close> grid holds a fresh SequenceLayerStore.
\<close>

theorem Grid_init_fallthrough:
  assumes "style \<noteq> DRAW_STYLE_SET" and "style \<noteq> DRAW_STYLE_ADD"
  shows "Grid_init catalog style x y
         = Inr \<lparr>draw_style = style, grid_x = x, grid_y = y, brush_size = DEFAULT_BRUSH_SIZE,
                grid = replicate x (Some (replicate y
                         (Some (SequenceStore SequenceLayerStore_init))))\<rparr>"
  using assms by (simp add: Grid_init_eq DEFAULT_BRUSH_SIZE_def)

theorem Grid_init_fallthrough_witness:
  "''TRIANGLE'' \<noteq> DRAW_STYLE_SET \<and> ''TRIANGLE'' \<noteq> DRAW_STYLE_ADD
   \<and> ''TRIANGLE'' \<notin> set DRAW_STYLE_OPTIONS
   \<and> Grid_init example_catalog ''TRIANGLE'' 2 3
       = Inr \<lparr>draw_style = ''TRIANGLE'', grid_x = 2, grid_y = 3, brush_size = 2,
              grid = [Some [Some (SequenceStore \<lparr>sequence_layers = {}\<rparr>),
                            Some (SequenceStore \<lparr>sequence_layers = {}\<rparr>),
                            Some (SequenceStore \<lparr>sequence_layers = {}\<rparr>)],
                      Some [Some (SequenceStore \<lparr>sequence_layers = {}\<rparr>),
                            Some (SequenceStore \<lparr>sequence_layers = {}\<rparr>),
                            Some (SequenceStore \<lparr>sequence_layers = {}\<rparr>)]]\<rparr>"
proof -
  have h: "''TRIANGLE'' \<noteq> DRAW_STYLE_SET" "''TRIANGLE'' \<noteq> DRAW_STYLE_ADD"
    by (simp_all add: DRAW_STYLE_SET_def DRAW_STYLE_ADD_def)
  have "replicate 2 (Some (replicate 3 (Some (SequenceStore SequenceLayerStore_init))))
        = [Some [Some (SequenceStore \<lparr>sequence_layers = {}\<rparr>),
                            Some (SequenceStore \<lparr>sequence_layers = {}\<rparr>),
                            Some (SequenceStore \<lparr>sequence_layers = {}\<rparr>)],
                      Some [Some (SequenceStore \<lparr>sequence_layers = {}\<rparr>),
                            Some (SequenceStore \<lparr>sequence_layers = {}\<rparr>),
                            Some (SequenceStore \<lparr>sequence_layers = {}\<rparr>)]]"
    by (simp add: numeral_2_eq_2 numeral_3_eq_3 SequenceLayerStore_init_def BSet_init_def)
  then show ?thesis
    using h Grid_init_fallthrough [OF h, of example_catalog 2 3]
    by (simp add: DRAW_STYLE_OPTIONS_def DRAW_STYLE_SET_def DRAW_STYLE_ADD_def
        DRAW_STYLE_SEQUENCE_def DEFAULT_BRUSH_SIZE_def)
qed

lemma brush_step_bounds:
  "0 \<le> brush_size g \<Longrightarrow> brush_size g \<le> 5 \<Longrightarrow>
   0 \<le> brush_size (brush_step g c) \<and> brush_size (brush_step g c) \<le> 5"
  by (cases c) (simp_all add: increase_brush_size_def decrease_brush_size_def
      MAX_BRUSH_def MIN_BRUSH_def)

lemma brush_run_bounds:
  "0 \<le> brush_size g \<Longrightarrow> brush_size g \<le> 5 \<Longrightarrow>
   0 \<le> brush_size (brush_run g cs) \<and> brush_size (brush_run g cs) \<le> 5"
proof (induction cs arbitrary: g)
  case Nil
  then show ?case by simp
next
  case (Cons c cs)
  from brush_step_bounds [OF Cons.prems, of c] Cons.IH [of "brush_step g c"]
  show ?case by simp
qed

text \<open>
  C8. The constructor sets \<^verbatim>\<open>brush_size\<close> to 2. After any history of
  \<^verbatim>\<open>increase_brush_size\<close> and \<^verbatim>\<open>decrease_brush_size\<close> calls the size lies in
  \<open>[0, 5]\<close>; from there an increase adds 1 unless the size is 5, where it stays, and a
  decrease subtracts 1 unless the size is 0, where it stays. Five increases of a new grid
  give 5, and five decreases after them give 0.
\<close>

theorem Grid_brush_size_clamped:
  "\<exists>g. Grid_init catalog style x y = Inr g
       \<and> brush_size g = 2
       \<and> MIN_BRUSH = 0 \<and> MAX_BRUSH = 5
       \<and> 0 \<le> brush_size (brush_run g calls) \<and> brush_size (brush_run g calls) \<le> 5
       \<and> brush_size (increase_brush_size (brush_run g calls))
           = (if brush_size (brush_run g calls) < 5 then brush_size (brush_run g calls) + 1 else 5)
       \<and> brush_size (decrease_brush_size (brush_run g calls))
           = (if 0 < brush_size (brush_run g calls) then brush_size (brush_run g calls) - 1 else 0)
       \<and> brush_size (brush_run g (replicate 5 Increase)) = 5
       \<and> brush_size (brush_run (brush_run g (replicate 5 Increase)) (replicate 5 Decrease)) = 0"
proof -
  obtain g where g: "Grid_init catalog style x y = Inr g" "brush_size g = 2"
    by (simp add: Grid_init_eq)
  have b: "0 \<le> brush_size (brush_run g calls) \<and> brush_size (brush_run g calls) \<le> 5"
    using g(2) by (intro brush_run_bounds) simp_all
  have inc: "brush_size (increase_brush_size (brush_run g calls))
           = (if brush_size (brush_run g calls) < 5 then brush_size (brush_run g calls) + 1 else 5)"
    using b by (simp add: increase_brush_size_def MAX_BRUSH_def)
  have dec: "brush_size (decrease_brush_size (brush_run g calls))
           = (if 0 < brush_size (brush_run g calls) then brush_size (brush_run g calls) - 1 else 0)"
    using b by (simp add: decrease_brush_size_def MIN_BRUSH_def)
  have up: "brush_size (brush_run g (replicate 5 Increase)) = 5"
    using g(2) by (simp add: numeral_eq_Suc increase_brush_size_def MAX_BRUSH_def)
  have down: "brush_size (brush_run (brush_run g (replicate 5 Increase)) (replicate 5 Decrease)) = 0"
    using g(2) by (simp add: numeral_eq_Suc increase_brush_size_def decrease_brush_size_def
        MAX_BRUSH_def MIN_BRUSH_def)
  show ?thesis
    using g b inc dec up down by (simp add: MIN_BRUSH_def MAX_BRUSH_def)
qed

section \<open>Properties of ReplayTracker\<close>

lemma play_next_action_eq:
  "play_next_action r g =
     (case items (action_queue r) of
        [] \<Rightarrow> (True, r, g)
      | (action, is_undo) # rest \<Rightarrow>
          (case (if is_undo then undo_apply action g else redo_apply action g) of
             (None, g') \<Rightarrow>
               (False, r\<lparr>action_queue := (action_queue r)\<lparr>items := rest\<rparr>\<rparr>, g')
           | (Some e, g') \<Rightarrow>
               (True, r\<lparr>action_queue := (action_queue r)\<lparr>items := rest\<rparr>\<rparr>, g')))"
  by (simp add: play_next_action_def cq_serve_def split: list.split)

lemma record_all_eq:
  "length (items (action_queue r)) \<le> capacity (action_queue r) \<Longrightarrow>
   record_all r es
   = Inr (r\<lparr>action_queue := (action_queue r)\<lparr>items := items (action_queue r)
            @ take (capacity (action_queue r) - length (items (action_queue r))) es\<rparr>\<rparr>)"
proof (induction es arbitrary: r)
  case Nil
  then show ?case by simp
next
  case (Cons e es)
  obtain action is_undo where e: "e = (action, is_undo)"
    by (cases e)
  show ?case
  proof (cases "cq_is_full (action_queue r)")
    case True
    then have "add_action r action is_undo = Inr r"
      by (simp add: add_action_def)
    moreover have "capacity (action_queue r) - length (items (action_queue r)) = 0"
      using True by (simp add: cq_is_full_def cq_len_def)
    ultimately show ?thesis
      using Cons.prems by (simp add: e Cons.IH)
  next
    case False
    let ?r' = "r\<lparr>action_queue := (action_queue r)\<lparr>items := items (action_queue r)
                  @ [(action, is_undo)]\<rparr>\<rparr>"
    have lt: "length (items (action_queue r)) < capacity (action_queue r)"
      using False Cons.prems by (simp add: cq_is_full_def cq_len_def)
    have add: "add_action r action is_undo = Inr ?r'"
      using False by (simp add: add_action_def cq_append_def)
    have "capacity (action_queue r) - length (items (action_queue r))
          = Suc (capacity (action_queue r) - Suc (length (items (action_queue r))))"
      using lt by simp
    then have tk: "take (capacity (action_queue r) - length (items (action_queue r))) (e # es)
          = e # take (capacity (action_queue r) - Suc (length (items (action_queue r)))) es"
      by simp
    have "record_all r (e # es) = record_all ?r' es"
      by (simp add: e add)
    also have "\<dots> = Inr (?r'\<lparr>action_queue := (action_queue ?r')\<lparr>items := items (action_queue ?r')
            @ take (capacity (action_queue ?r') - length (items (action_queue ?r'))) es\<rparr>\<rparr>)"
      using lt by (intro Cons.IH) simp
    finally have res: "record_all r (e # es)
          = Inr (?r'\<lparr>action_queue := (action_queue ?r')\<lparr>items := items (action_queue ?r')
            @ take (capacity (action_queue ?r') - length (items (action_queue ?r'))) es\<rparr>\<rparr>)" .
    show ?thesis
      by (simp only: res tk) (simp add: e)
  qed
qed

text \<open>
  Where every effect returns normally, the entries of the log are played oldest first and
  every call returns \<^verbatim>\<open>False\<close>; the call on the emptied log then returns \<^verbatim>\<open>True\<close> and
  changes nothing.
\<close>

lemma play_times_returning:
  "items (action_queue r) = es \<Longrightarrow> \<forall>e \<in> set es. \<forall>g. fst (entry_effect e g) = None \<Longrightarrow>
   play_times (length es) r g
   = (replicate (length es) False,
      r\<lparr>action_queue := (action_queue r)\<lparr>items := []\<rparr>\<rparr>,
      fold (\<lambda>e g. snd (entry_effect e g)) es g)"
proof (induction es arbitrary: r g)
  case Nil
  then show ?case by simp
next
  case (Cons e es)
  obtain action is_undo where e: "e = (action, is_undo)"
    by (cases e)
  let ?r' = "r\<lparr>action_queue := (action_queue r)\<lparr>items := es\<rparr>\<rparr>"
  have "fst (entry_effect e g) = None"
    using Cons.prems(2) by simp
  then obtain g1 where eff: "entry_effect e g = (None, g1)"
    by (cases "entry_effect e g") simp
  then have "(if is_undo then undo_apply action g else redo_apply action g) = (None, g1)"
    by (simp add: e)
  then have "play_next_action r g = (False, ?r', g1)"
    using Cons.prems(1) by (simp add: play_next_action_eq e)
  then have step: "play_next_action r g = (False, ?r', snd (entry_effect e g))"
    by (simp add: eff)
  have "items (action_queue ?r') = es"
    by simp
  moreover have "\<forall>e \<in> set es. \<forall>g. fst (entry_effect e g) = None"
    using Cons.prems(2) by simp
  ultimately have "play_times (length es) ?r' (snd (entry_effect e g))
      = (replicate (length es) False,
         ?r'\<lparr>action_queue := (action_queue ?r')\<lparr>items := []\<rparr>\<rparr>,
         fold (\<lambda>e g. snd (entry_effect e g)) es (snd (entry_effect e g)))"
    by (rule Cons.IH)
  then show ?case
    by (simp add: step)
qed

lemma play_next_action_empty:
  "items (action_queue r) = [] \<Longrightarrow> play_next_action r g = (True, r, g)"
  by (simp add: play_next_action_eq)

text \<open>
  C4. \<^verbatim>\<open>play_next_action\<close> is to return \<^verbatim>\<open>True\<close> only when the log is empty, and
  \<^verbatim>\<open>False\<close> after playing the oldest entry. The code does not do so when the effect of
  the entry raises: the one-cell grid is what the constructor builds for style
  \<^verbatim>\<open>"SET"\<close>, recording the row-5 action as a redo on a new tracker gives a log of that one
  entry, and \<^verbatim>\<open>play_next_action\<close> on this log and grid returns \<^verbatim>\<open>True\<close>, with the entry
  removed from the log and the grid as it was, because the \<^verbatim>\<open>IndexError\<close> of the redo
  effect is answered by the handler meant for the empty queue.
\<close>

theorem ReplayTracker_play_swallows_raise:
  "Grid_init example_catalog DRAW_STYLE_SET 1 1 = Inr example_grid
   \<and> record_all ReplayTracker_init [(example_row5_action, False)]
       = Inr \<lparr>action_queue = \<lparr>items = [(example_row5_action, False)], capacity = 11000\<rparr>\<rparr>
   \<and> redo_apply example_row5_action example_grid = (Some IndexError, example_grid)
   \<and> play_next_action
        \<lparr>action_queue = \<lparr>items = [(example_row5_action, False)], capacity = 11000\<rparr>\<rparr>
        example_grid
       = (True, \<lparr>action_queue = \<lparr>items = [], capacity = 11000\<rparr>\<rparr>, example_grid)"
proof (intro conjI)
  show "Grid_init example_catalog DRAW_STYLE_SET 1 1 = Inr example_grid"
    by (simp add: Grid_init_eq example_grid_def SetLayerStore_init_def DRAW_STYLE_SET_def)
  show "record_all ReplayTracker_init [(example_row5_action, False)]
       = Inr \<lparr>action_queue = \<lparr>items = [(example_row5_action, False)], capacity = 11000\<rparr>\<rparr>"
    by (subst record_all_eq) (simp_all add: ReplayTracker_init_def CircularQueue_init_def)
  show raise: "redo_apply example_row5_action example_grid = (Some IndexError, example_grid)"
    by (simp add: example_row5_action_def Grid_getitem_def arr_getitem_def example_grid_def)
  show "play_next_action
        \<lparr>action_queue = \<lparr>items = [(example_row5_action, False)], capacity = 11000\<rparr>\<rparr>
        example_grid
       = (True, \<lparr>action_queue = \<lparr>items = [], capacity = 11000\<rparr>\<rparr>, example_grid)"
    by (simp add: play_next_action_eq raise)
qed

end
